theory Spec2Isabelle
  imports Main
begin

unbundle bit_operations_syntax

section \<open>MCP23017 matrix keypad scanner: the model\<close>

text \<open>
  A shallow embedding of \<^verbatim>\<open>mcp23017_scanner.py\<close>. Python objects are records, Python
  integers are \<^typ>\<open>int\<close>, Python lists are HOL lists whose end is the end \<^verbatim>\<open>append\<close> and
  \<^verbatim>\<open>pop\<close> work on, and Python sets of key numbers are \<^typ>\<open>int set\<close>. Every exception the
  modelled code can raise is a value of \<open>error\<close>; a method that may raise returns its
  outcome together with the state the object and the hardware are left in.
\<close>

subsection \<open>Exceptions and the borrowed capabilities\<close>

datatype error = OSError | ValueError | IndexError | ZeroDivisionError

text \<open>
  The code reaches the outside world through \<^verbatim>\<open>supervisor.ticks_ms\<close>, the two port
  attributes \<^verbatim>\<open>mcp.gpioa\<close> (written) and \<^verbatim>\<open>mcp.gpiob\<close> (read) and the interrupt pin
  (\<^verbatim>\<open>irq.value\<close>, \<^verbatim>\<open>irq.deinit()\<close>). They are parameters of the model: operations on a
  world \<open>'w\<close> that the code cannot see otherwise. A port access either succeeds or raises;
  both leave a world behind.
\<close>

record 'w hw =
  ticks_ms :: "'w \<Rightarrow> int \<times> 'w"
  gpioa_set :: "int \<Rightarrow> 'w \<Rightarrow> error option \<times> 'w"
  gpiob_get :: "'w \<Rightarrow> (error + int) \<times> 'w"
  irq_value :: "'w \<Rightarrow> bool"
  irq_deinit :: "'w \<Rightarrow> 'w"

subsection \<open>Event\<close>

record event =
  key_number :: int
  timestamp :: int
  pressed :: bool

text \<open>
  \<^verbatim>\<open>self.timestamp = timestamp or ticks_ms()\<close>: the clock is read when the argument is
  falsy, that is \<^verbatim>\<open>None\<close> or \<^verbatim>\<open>0\<close>, and only then.
\<close>

definition Event_init :: "'w hw \<Rightarrow> int \<Rightarrow> bool \<Rightarrow> int option \<Rightarrow> 'w \<Rightarrow> event \<times> 'w" where
  "Event_init hw key prs ts w =
     (case ts of
        Some t \<Rightarrow>
          if t \<noteq> 0 then (\<lparr>key_number = key, timestamp = t, pressed = prs\<rparr>, w)
          else (case ticks_ms hw w of
                  (now, w') \<Rightarrow> (\<lparr>key_number = key, timestamp = now, pressed = prs\<rparr>, w'))
      | None \<Rightarrow>
          (case ticks_ms hw w of
             (now, w') \<Rightarrow> (\<lparr>key_number = key, timestamp = now, pressed = prs\<rparr>, w')))"

definition released :: "event \<Rightarrow> bool" where
  "released e = (\<not> pressed e)"

subsection \<open>EventQueue\<close>

record EventQueue =
  outq :: "event list"
  inq :: "event list"

definition EventQueue_init :: EventQueue where
  "EventQueue_init = \<lparr>outq = [], inq = []\<rparr>"

definition EventQueue_append :: "EventQueue \<Rightarrow> event \<Rightarrow> EventQueue" where
  "EventQueue_append q ev = q\<lparr>inq := inq q @ [ev]\<rparr>"

text \<open>\<^verbatim>\<open>list.pop()\<close> removes and returns the last item and raises IndexError on an empty list.\<close>

definition pop :: "'a list \<Rightarrow> (error + 'a) \<times> 'a list" where
  "pop xs = (if xs = [] then (Inl IndexError, xs) else (Inr (last xs), butlast xs))"

definition EventQueue_get :: "EventQueue \<Rightarrow> (error + event option) \<times> EventQueue" where
  "EventQueue_get q =
     (if outq q \<noteq> [] then
        (case pop (outq q) of
           (Inl e, l) \<Rightarrow> (Inl e, q\<lparr>outq := l\<rparr>)
         | (Inr ev, l) \<Rightarrow> (Inr (Some ev), q\<lparr>outq := l\<rparr>))
      else if length (inq q) = 1 then
        (case pop (inq q) of
           (Inl e, l) \<Rightarrow> (Inl e, q\<lparr>inq := l\<rparr>)
         | (Inr ev, l) \<Rightarrow> (Inr (Some ev), q\<lparr>inq := l\<rparr>))
      else if inq q \<noteq> [] then
        (case pop (rev (inq q)) of
           (Inl e, l) \<Rightarrow> (Inl e, q\<lparr>outq := l, inq := []\<rparr>)
         | (Inr ev, l) \<Rightarrow> (Inr (Some ev), q\<lparr>outq := l, inq := []\<rparr>))
      else (Inr None, q))"

definition EventQueue_clear :: "EventQueue \<Rightarrow> EventQueue" where
  "EventQueue_clear q = q\<lparr>outq := [], inq := []\<rparr>"

definition EventQueue_len :: "EventQueue \<Rightarrow> nat" where
  "EventQueue_len q = length (outq q) + length (inq q)"

definition EventQueue_bool :: "EventQueue \<Rightarrow> bool" where
  "EventQueue_bool q = (EventQueue_len q > 0)"

text \<open>\<open>get_n n\<close> is \<open>n\<close> calls of \<^verbatim>\<open>get()\<close> in a row: what each returned, and the queue left.\<close>

fun get_n :: "nat \<Rightarrow> EventQueue \<Rightarrow> (error + event option) list \<times> EventQueue" where
  "get_n 0 q = ([], q)"
| "get_n (Suc n) q =
     (case EventQueue_get q of
        (r, q') \<Rightarrow> (case get_n n q' of (rs, q'') \<Rightarrow> (r # rs, q'')))"

text \<open>The events a queue holds, oldest first.\<close>

definition pending :: "EventQueue \<Rightarrow> event list" where
  "pending q = rev (outq q) @ inq q"

subsection \<open>McpMatrixScanner\<close>

text \<open>
  \<^verbatim>\<open>self.irq\<close> is \<^verbatim>\<open>None\<close> or the \<^verbatim>\<open>DigitalInOut\<close> object made from the interrupt pin; the
  object is always truthy. The register set-up of the constructor is outside the model:
  the properties below hold from any scanner state.
\<close>

datatype DigitalInOut = DigitalInOut nat

record scanner =
  key_count :: nat
  columns :: "int list"
  rows :: "int list"
  keys_state :: "int set"
  events :: EventQueue
  irq :: "DigitalInOut option"

text \<open>
  The inner loop of \<^verbatim>\<open>_scan_matrix\<close>, \<^verbatim>\<open>for row in self.rows\<close>. Python raises ValueError
  for a shift by a negative count; \<^verbatim>\<open>>>\<close> on an \<^verbatim>\<open>int\<close> is \<^const>\<open>drop_bit\<close>.
\<close>

fun scan_rows :: "int \<Rightarrow> int \<Rightarrow> int \<Rightarrow> int list \<Rightarrow> int set \<Rightarrow> error + int set" where
  "scan_rows num_cols scan_column inputs [] acc = Inr acc"
| "scan_rows num_cols scan_column inputs (row # rs) acc =
     (if row < 0 then Inl ValueError
      else if drop_bit (nat row) inputs AND 1 = 0
        then scan_rows num_cols scan_column inputs rs (insert (scan_column + num_cols * row) acc)
        else scan_rows num_cols scan_column inputs rs acc)"

text \<open>
  The outer loop, \<^verbatim>\<open>for scan_column in self.columns\<close>, over the columns still to scan,
  with the set \<^verbatim>\<open>pressed\<close> built so far.
\<close>

fun scan_columns :: "'w hw \<Rightarrow> scanner \<Rightarrow> int list \<Rightarrow> int set \<Rightarrow> 'w \<Rightarrow> (error + int set) \<times> 'w" where
  "scan_columns hw s [] acc w = (Inr acc, w)"
| "scan_columns hw s (scan_column # cs) acc w =
     (if scan_column < 0 then (Inl ValueError, w)
      else
        (case gpioa_set hw (255 - push_bit (nat scan_column) 1) w of
           (Some e, w1) \<Rightarrow> (Inl e, w1)
         | (None, w1) \<Rightarrow>
             if irq s = None \<or> \<not> irq_value hw w1 then
               (case gpiob_get hw w1 of
                  (Inl e, w2) \<Rightarrow> (Inl e, w2)
                | (Inr inputs, w2) \<Rightarrow>
                    if inputs \<noteq> 0 then
                      (case scan_rows (int (length (columns s))) scan_column inputs (rows s) acc of
                         Inl e \<Rightarrow> (Inl e, w2)
                       | Inr acc' \<Rightarrow> scan_columns hw s cs acc' w2)
                    else scan_columns hw s cs acc w2)
             else scan_columns hw s cs acc w1))"

definition scan_matrix :: "'w hw \<Rightarrow> scanner \<Rightarrow> 'w \<Rightarrow> (error + int set) \<times> 'w" where
  "scan_matrix hw s w =
     (case scan_columns hw s (columns s) {} w of
        (Inl e, w1) \<Rightarrow> (Inl e, w1)
      | (Inr acc, w1) \<Rightarrow>
          (case gpioa_set hw 255 w1 of
             (Some e, w2) \<Rightarrow> (Inl e, w2)
           | (None, w2) \<Rightarrow> (Inr acc, w2)))"

text \<open>
  Python does not fix the order in which \<^verbatim>\<open>for key in a_set\<close> visits the set. The order
  is a parameter \<open>iter\<close> of the model; \<open>set_iteration iter\<close> says what Python does
  promise: every element of the set is visited, once.
\<close>

definition set_iteration :: "(int set \<Rightarrow> int list) \<Rightarrow> bool" where
  "set_iteration iter = (\<forall>S. finite S \<longrightarrow> set (iter S) = S \<and> distinct (iter S))"

text \<open>
  Both loops of \<^verbatim>\<open>update_queue\<close>:
  \<^verbatim>\<open>for key in keys: self.events.append(Event(key, flag, timestamp))\<close>.
\<close>

fun append_events :: "'w hw \<Rightarrow> bool \<Rightarrow> int \<Rightarrow> int list \<Rightarrow> EventQueue \<Rightarrow> 'w \<Rightarrow> EventQueue \<times> 'w" where
  "append_events hw flag ts [] q w = (q, w)"
| "append_events hw flag ts (key # ks) q w =
     (case Event_init hw key flag (Some ts) w of
        (ev, w') \<Rightarrow> append_events hw flag ts ks (EventQueue_append q ev) w')"

definition update_queue ::
  "'w hw \<Rightarrow> (int set \<Rightarrow> int list) \<Rightarrow> scanner \<Rightarrow> 'w \<Rightarrow> (error + unit) \<times> scanner \<times> 'w" where
  "update_queue hw iter s w =
     (case ticks_ms hw w of
        (ts, w0) \<Rightarrow>
          (case scan_matrix hw s w0 of
             (Inl e, w1) \<Rightarrow> (Inl e, s, w1)
           | (Inr current_state, w1) \<Rightarrow>
               (let released_keys = keys_state s - current_state;
                    pressed_keys = current_state - keys_state s
                in case append_events hw False ts (iter released_keys) (events s) w1 of
                     (q1, w2) \<Rightarrow>
                       (case append_events hw True ts (iter pressed_keys) q1 w2 of
                          (q2, w3) \<Rightarrow>
                            (Inr (), s\<lparr>events := q2, keys_state := current_state\<rparr>, w3)))))"

text \<open>\<^verbatim>\<open>//\<close> and \<^verbatim>\<open>%\<close> raise ZeroDivisionError when there is no column.\<close>

definition key_number_to_row_column :: "scanner \<Rightarrow> int \<Rightarrow> error + int \<times> int" where
  "key_number_to_row_column s k =
     (if length (columns s) = 0 then Inl ZeroDivisionError
      else Inr (k div int (length (columns s)), k mod int (length (columns s))))"

definition row_column_to_key_number :: "scanner \<Rightarrow> int \<Rightarrow> int \<Rightarrow> int" where
  "row_column_to_key_number s row column = row * int (length (columns s)) + column"

definition reset :: "scanner \<Rightarrow> scanner" where
  "reset s = s\<lparr>events := EventQueue_clear (events s), keys_state := {}\<rparr>"

definition deinit :: "'w hw \<Rightarrow> scanner \<Rightarrow> 'w \<Rightarrow> scanner \<times> 'w" where
  "deinit hw s w =
     (case irq s of
        Some pin \<Rightarrow> (s\<lparr>irq := None\<rparr>, irq_deinit hw w)
      | None \<Rightarrow> (s, w))"

subsection \<open>A bench device\<close>

text \<open>
  For concrete runs: a world that holds a millisecond counter, advanced by one at each
  reading, the value last written to port A and whether the interrupt pin is still
  claimed; what port B reads is a function \<open>wiring\<close> of the value on port A. The
  interrupt line of the bench is asserted (reads false).
\<close>

record bench =
  clock :: int
  porta :: int
  irq_claimed :: bool

definition bench_hw :: "(int \<Rightarrow> error + int) \<Rightarrow> bench hw" where
  "bench_hw wiring =
     \<lparr>ticks_ms = (\<lambda>w. (clock w, w\<lparr>clock := clock w + 1\<rparr>)),
      gpioa_set = (\<lambda>v w. (None, w\<lparr>porta := v\<rparr>)),
      gpiob_get = (\<lambda>w. (wiring (porta w), w)),
      irq_value = (\<lambda>w. False),
      irq_deinit = (\<lambda>w. w\<lparr>irq_claimed := False\<rparr>)\<rparr>"

definition bench_at :: "int \<Rightarrow> bench" where
  "bench_at t = \<lparr>clock = t, porta = 255, irq_claimed = True\<rparr>"

text \<open>
  A keypad of 2 rows and 3 columns on pins 0, 1 and 0, 1, 2, with no interrupt pin, and
  three wirings of it: only key 4 (column 1, row 1) held down, so that row bit 1 reads 0
  while column 1 is selected (port A is \<open>0xFD\<close>); every row bit reading 0; a bus
  that fails.
\<close>

definition keypad :: "int set \<Rightarrow> scanner" where
  "keypad ks =
     \<lparr>key_count = 6, columns = [0, 1, 2], rows = [0, 1], keys_state = ks,
      events = EventQueue_init, irq = None\<rparr>"

definition key4_held :: "int \<Rightarrow> error + int" where
  "key4_held v = (if v = 253 then Inr 253 else Inr 255)"

definition all_low :: "int \<Rightarrow> error + int" where
  "all_low v = Inr 0"

definition bus_down :: "int \<Rightarrow> error + int" where
  "bus_down v = Inl OSError"

text \<open>The device \<open>hw\<close> with a port A that refuses the value \<open>v\<close>: writing it raises.\<close>

definition write_fails :: "int \<Rightarrow> bench hw \<Rightarrow> bench hw" where
  "write_fails v hw =
     hw\<lparr>gpioa_set := (\<lambda>x w. if x = v then (Some OSError, w) else gpioa_set hw x w)\<rparr>"

section \<open>Properties of the event queue\<close>

lemma pending_append: "pending (EventQueue_append q ev) = pending q @ [ev]"
  by (simp add: pending_def EventQueue_append_def)

lemma pending_appends: "pending (foldl EventQueue_append q es) = pending q @ es"
  by (induction es arbitrary: q) (simp_all add: pending_append)

lemma get_empty:
  assumes "pending q = []"
  shows "EventQueue_get q = (Inr None, q)"
  using assms by (simp add: pending_def EventQueue_get_def)

lemma get_nonempty:
  assumes "pending q = ev # evs"
  shows "\<exists>q'. EventQueue_get q = (Inr (Some ev), q') \<and> pending q' = evs"
proof (cases "outq q = []")
  case False
  then obtain o' x where o: "outq q = o' @ [x]"
    by (metis rev_exhaust)
  with assms show ?thesis
    by (simp add: pending_def EventQueue_get_def pop_def)
next
  case True
  with assms have i: "inq q = ev # evs"
    by (simp add: pending_def)
  show ?thesis
  proof (cases "evs = []")
    case True
    with i \<open>outq q = []\<close> show ?thesis
      by (simp add: pending_def EventQueue_get_def pop_def)
  next
    case False
    with i \<open>outq q = []\<close> show ?thesis
      by (simp add: pending_def EventQueue_get_def pop_def)
  qed
qed

lemma get_n_pending:
  "pending q = es \<Longrightarrow>
     fst (get_n (Suc (length es)) q) = map (\<lambda>e. Inr (Some e)) es @ [Inr None]"
proof (induction es arbitrary: q)
  case Nil
  then show ?case by (simp add: get_empty)
next
  case (Cons e es)
  from get_nonempty [OF Cons.prems] obtain q'
    where g: "EventQueue_get q = (Inr (Some e), q')" and p: "pending q' = es"
    by blast
  from Cons.IH [OF p] g show ?case
    by (simp add: case_prod_beta)
qed

lemma get_never_raises: "\<exists>r q'. EventQueue_get q = (Inr r, q')"
proof (cases "pending q")
  case Nil
  then show ?thesis using get_empty by blast
next
  case (Cons e es)
  then show ?thesis using get_nonempty by blast
qed

text \<open>
  Claim C3. After the events \<open>es\<close> have been appended to a new queue, with no \<^verbatim>\<open>get()\<close> in
  between, the next \<open>length es\<close> calls of \<^verbatim>\<open>get()\<close> return the events of \<open>es\<close> in
  their order of appending, none raises, and one more call returns \<^verbatim>\<open>None\<close>.
\<close>

theorem EventQueue_fifo:
  "fst (get_n (Suc (length es)) (foldl EventQueue_append EventQueue_init es)) =
     map (\<lambda>e. Inr (Some e)) es @ [Inr None]"
proof -
  have "pending (foldl EventQueue_append EventQueue_init es) = es"
    by (simp add: pending_appends) (simp add: pending_def EventQueue_init_def)
  then show ?thesis by (rule get_n_pending)
qed

text \<open>
  Claim C8. From any queue, after \<^verbatim>\<open>clear()\<close> the length is 0 and \<^verbatim>\<open>get()\<close> returns
  \<^verbatim>\<open>None\<close>; and \<^verbatim>\<open>get()\<close> raises in no state of the queue: the \<^verbatim>\<open>pop()\<close> calls it makes
  are on non-empty lists. (\<^verbatim>\<open>clear\<close> and \<^verbatim>\<open>__len__\<close> have no raising operation at all.)
\<close>

theorem EventQueue_clear_empty:
  "EventQueue_len (EventQueue_clear q) = 0 \<and>
   EventQueue_get (EventQueue_clear q) = (Inr None, EventQueue_clear q) \<and>
   (\<exists>r q'. EventQueue_get q = (Inr r, q'))"
  using get_never_raises [of q]
  by (simp add: EventQueue_len_def EventQueue_clear_def EventQueue_get_def)

section \<open>Properties of the scan\<close>

lemma scan_rows_finite:
  "scan_rows n c v rs acc = Inr acc' \<Longrightarrow> finite acc \<Longrightarrow> finite acc'"
  by (induction rs arbitrary: acc) (auto split: if_splits)

lemma scan_rows_mono:
  "scan_rows n c v rs acc = Inr acc' \<Longrightarrow> acc \<subseteq> acc'"
proof (induction rs arbitrary: acc)
  case Nil
  then show ?case by simp
next
  case (Cons r rs)
  then show ?case by (fastforce split: if_splits)
qed

lemma scan_rows_pressed:
  "scan_rows n c v rs acc = Inr acc' \<Longrightarrow> r \<in> set rs \<Longrightarrow>
     drop_bit (nat r) v AND 1 = 0 \<Longrightarrow> c + n * r \<in> acc'"
proof (induction rs arbitrary: acc)
  case Nil
  then show ?case by simp
next
  case (Cons a rs)
  show ?case
  proof (cases "r = a")
    case True
    with Cons.prems have "scan_rows n c v rs (insert (c + n * r) acc) = Inr acc'"
      by (simp split: if_splits)
    from scan_rows_mono [OF this] show ?thesis by blast
  next
    case False
    with Cons.prems have "r \<in> set rs" by simp
    with Cons.prems Cons.IH show ?thesis
      by (auto split: if_splits)
  qed
qed

lemma scan_columns_finite:
  "scan_columns hw s cs acc w = (Inr acc', w') \<Longrightarrow> finite acc \<Longrightarrow> finite acc'"
proof (induction cs arbitrary: acc w)
  case Nil
  then show ?case by simp
next
  case (Cons c cs)
  then show ?case
    by (auto split: if_splits prod.splits option.splits sum.splits dest: scan_rows_finite)
qed

lemma scan_columns_mono:
  "scan_columns hw s cs acc w = (Inr acc', w') \<Longrightarrow> acc \<subseteq> acc'"
proof (induction cs arbitrary: acc w)
  case Nil
  then show ?case by simp
next
  case (Cons c cs)
  then show ?case
    by (fastforce split: if_splits prod.splits option.splits sum.splits dest: scan_rows_mono)
qed

lemma scan_columns_append:
  "scan_columns hw s (xs @ ys) acc w =
     (case scan_columns hw s xs acc w of
        (Inl e, w1) \<Rightarrow> (Inl e, w1)
      | (Inr acc1, w1) \<Rightarrow> scan_columns hw s ys acc1 w1)"
  by (induction xs arbitrary: acc w) (auto split: prod.splits option.splits sum.splits)

lemma scan_matrix_finite:
  "scan_matrix hw s w = (Inr cur, w') \<Longrightarrow> finite cur"
  by (auto simp: scan_matrix_def split: prod.splits option.splits sum.splits dest: scan_columns_finite)

text \<open>
  A port access that raises ends the scan with that error: the write that selects a
  column, the read of the rows, and the write that restores port A after the last column.
\<close>

lemma scan_matrix_write_error:
  assumes "columns s = pre @ c # post"
    and "scan_columns hw s pre {} w = (Inr acc, w1)"
    and "0 \<le> c"
    and "gpioa_set hw (255 - push_bit (nat c) 1) w1 = (Some e, w2)"
  shows "scan_matrix hw s w = (Inl e, w2)"
  using assms by (simp add: scan_matrix_def scan_columns_append)

lemma scan_matrix_read_error:
  assumes "columns s = pre @ c # post"
    and "scan_columns hw s pre {} w = (Inr acc, w1)"
    and "0 \<le> c"
    and "gpioa_set hw (255 - push_bit (nat c) 1) w1 = (None, w2)"
    and "irq s = None \<or> \<not> irq_value hw w2"
    and "gpiob_get hw w2 = (Inl e, w3)"
  shows "scan_matrix hw s w = (Inl e, w3)"
  using assms by (auto simp: scan_matrix_def scan_columns_append)

lemma scan_matrix_restore_error:
  assumes "scan_columns hw s (columns s) {} w = (Inr acc, w1)"
    and "gpioa_set hw 255 w1 = (Some e, w2)"
  shows "scan_matrix hw s w = (Inl e, w2)"
  using assms by (simp add: scan_matrix_def)

text \<open>
  A column whose read is 0 is passed over by \<^verbatim>\<open>if inputs:\<close>: it adds no key to the set.
\<close>

lemma scan_columns_zero_read:
  assumes "0 \<le> c"
    and "gpioa_set hw (255 - push_bit (nat c) 1) w1 = (None, w2)"
    and "irq s = None \<or> \<not> irq_value hw w2"
    and "gpiob_get hw w2 = (Inr 0, w3)"
  shows "scan_columns hw s (c # cs) acc w1 = scan_columns hw s cs acc w3"
  using assms by auto

text \<open>
  Claim C2, amended. Take a scan that succeeds, and a column \<open>c\<close> of it: the columns
  \<open>pre\<close> before it have been scanned, port A has been written for \<open>c\<close>, the read is not
  gated off by the interrupt line, and port B reads \<open>inputs\<close>. If \<open>inputs\<close> is not 0,
  then for every row whose bit in \<open>inputs\<close> is 0 the key number
  \<open>c + num_columns * row\<close> is in the set the scan returns.
\<close>

theorem scan_matrix_pressed:
  assumes cols: "columns s = pre @ c # post"
    and pre: "scan_columns hw s pre {} w = (Inr acc, w1)"
    and wr: "gpioa_set hw (255 - push_bit (nat c) 1) w1 = (None, w2)"
    and gate: "irq s = None \<or> \<not> irq_value hw w2"
    and rd: "gpiob_get hw w2 = (Inr inputs, w3)"
    and nz: "inputs \<noteq> 0"
    and row: "row \<in> set (rows s)"
    and bit0: "drop_bit (nat row) inputs AND 1 = 0"
    and sc: "scan_matrix hw s w = (Inr current_state, w')"
  shows "c + int (length (columns s)) * row \<in> current_state"
proof -
  from sc obtain wf where all: "scan_columns hw s (columns s) {} w = (Inr current_state, wf)"
    by (auto simp: scan_matrix_def split: prod.splits sum.splits option.splits)
  with cols pre have rest: "scan_columns hw s (c # post) acc w1 = (Inr current_state, wf)"
    by (simp add: scan_columns_append)
  with wr gate rd nz obtain acc' where
    rs: "scan_rows (int (length (columns s))) c inputs (rows s) acc = Inr acc'"
    and post: "scan_columns hw s post acc' w3 = (Inr current_state, wf)"
    by (auto split: if_splits sum.splits)
  from scan_rows_pressed [OF rs row bit0] have "c + int (length (columns s)) * row \<in> acc'" .
  with scan_columns_mono [OF post] show ?thesis by blast
qed

theorem scan_matrix_pressed_witness:
  "scan_matrix (bench_hw key4_held) (keypad {}) (bench_at 7) = (Inr {4}, bench_at 7) \<and>
   (1::int) + int (length (columns (keypad {}))) * 1 \<in> {4}"
proof -
  have sc: "scan_matrix (bench_hw key4_held) (keypad {}) (bench_at 7) = (Inr {4}, bench_at 7)"
    by (simp add: scan_matrix_def bench_hw_def keypad_def key4_held_def bench_at_def)
  have "(1::int) + int (length (columns (keypad {}))) * 1 \<in> {4}"
  proof (rule scan_matrix_pressed [where pre = "[0]" and post = "[2]" and inputs = 253
        and hw = "bench_hw key4_held" and w = "bench_at 7" and acc = "{}"
        and ?w1.0 = "(bench_at 7)\<lparr>porta := 254\<rparr>" and ?w2.0 = "(bench_at 7)\<lparr>porta := 253\<rparr>"
        and ?w3.0 = "(bench_at 7)\<lparr>porta := 253\<rparr>" and w' = "bench_at 7"])
    show "columns (keypad {}) = [0] @ 1 # [2]" by (simp add: keypad_def)
    show "scan_columns (bench_hw key4_held) (keypad {}) [0] {} (bench_at 7) =
            (Inr {}, (bench_at 7)\<lparr>porta := 254\<rparr>)"
      by (simp add: bench_hw_def keypad_def key4_held_def bench_at_def)
    show "gpioa_set (bench_hw key4_held) (255 - push_bit (nat 1) 1) ((bench_at 7)\<lparr>porta := 254\<rparr>) =
            (None, (bench_at 7)\<lparr>porta := 253\<rparr>)"
      by (simp add: bench_hw_def bench_at_def)
    show "irq (keypad {}) = None \<or> \<not> irq_value (bench_hw key4_held) ((bench_at 7)\<lparr>porta := 253\<rparr>)"
      by (simp add: keypad_def)
    show "gpiob_get (bench_hw key4_held) ((bench_at 7)\<lparr>porta := 253\<rparr>) =
            (Inr 253, (bench_at 7)\<lparr>porta := 253\<rparr>)"
      by (simp add: bench_hw_def key4_held_def bench_at_def)
    show "(253::int) \<noteq> 0" by simp
    show "1 \<in> set (rows (keypad {}))" by (simp add: keypad_def)
    show "drop_bit (nat 1) (253::int) AND 1 = 0" by simp
    show "scan_matrix (bench_hw key4_held) (keypad {}) (bench_at 7) = (Inr {4}, bench_at 7)"
      by (rule sc)
  qed
  with sc show ?thesis by simp
qed

text \<open>
  Claim C2 as stated fails for the read 0: \<^verbatim>\<open>if inputs:\<close> skips the rows of a column
  whose read is 0. On the bench keypad with every row bit reading 0, no key is reported.
\<close>

theorem scan_matrix_all_low:
  "gpiob_get (bench_hw all_low) ((bench_at 7)\<lparr>porta := 254\<rparr>) = (Inr 0, (bench_at 7)\<lparr>porta := 254\<rparr>) \<and>
   drop_bit (nat 0) (0::int) AND 1 = 0 \<and>
   scan_matrix (bench_hw all_low) (keypad {}) (bench_at 7) = (Inr {}, bench_at 7)"
  by (simp add: scan_matrix_def bench_hw_def keypad_def all_low_def bench_at_def)

section \<open>Properties of a scan cycle\<close>

lemma append_events_inq:
  "\<exists>evs w'. append_events hw flag ts ks q w = (q\<lparr>inq := inq q @ evs\<rparr>, w') \<and>
      map key_number evs = ks \<and> map pressed evs = map (\<lambda>k. flag) ks \<and>
      (ts \<noteq> 0 \<longrightarrow> map timestamp evs = map (\<lambda>k. ts) ks)"
proof (induction ks arbitrary: q w)
  case Nil
  then show ?case by simp
next
  case (Cons k ks)
  obtain ev w1 where e: "Event_init hw k flag (Some ts) w = (ev, w1)"
    by (cases "Event_init hw k flag (Some ts) w")
  then have ev: "key_number ev = k" "pressed ev = flag" "ts \<noteq> 0 \<longrightarrow> timestamp ev = ts"
    by (auto simp: Event_init_def split: if_splits prod.splits)
  from Cons.IH [of "EventQueue_append q ev" w1] obtain evs w'
    where r: "append_events hw flag ts ks (EventQueue_append q ev) w1 =
                ((EventQueue_append q ev)\<lparr>inq := inq (EventQueue_append q ev) @ evs\<rparr>, w')"
      and m: "map key_number evs = ks" "map pressed evs = map (\<lambda>k. flag) ks"
          "ts \<noteq> 0 \<longrightarrow> map timestamp evs = map (\<lambda>k. ts) ks"
    by blast
  have "append_events hw flag ts (k # ks) q w = (q\<lparr>inq := inq q @ (ev # evs)\<rparr>, w')"
    using e r by (simp add: EventQueue_append_def)
  with ev m show ?case
    by (intro exI [of _ "ev # evs"] exI [of _ w']) simp
qed

lemma update_queue_ok:
  assumes t: "ticks_ms hw w = (ts, w0)"
    and sc: "scan_matrix hw s w0 = (Inr cur, w1)"
  shows "\<exists>rel prs w'.
      update_queue hw iter s w =
        (Inr (), s\<lparr>events := (events s)\<lparr>inq := inq (events s) @ rel @ prs\<rparr>, keys_state := cur\<rparr>, w') \<and>
      map key_number rel = iter (keys_state s - cur) \<and>
      map key_number prs = iter (cur - keys_state s) \<and>
      map pressed rel = map (\<lambda>k. False) (iter (keys_state s - cur)) \<and>
      map pressed prs = map (\<lambda>k. True) (iter (cur - keys_state s)) \<and>
      (ts \<noteq> 0 \<longrightarrow> map timestamp (rel @ prs) = map (\<lambda>e. ts) (rel @ prs))"
proof -
  obtain rel w2 where
    r: "append_events hw False ts (iter (keys_state s - cur)) (events s) w1 =
          ((events s)\<lparr>inq := inq (events s) @ rel\<rparr>, w2)"
    and rk: "map key_number rel = iter (keys_state s - cur)"
    and rp: "map pressed rel = map (\<lambda>k. False) (iter (keys_state s - cur))"
    and rt: "ts \<noteq> 0 \<longrightarrow> map timestamp rel = map (\<lambda>k. ts) (iter (keys_state s - cur))"
    using append_events_inq [of hw False ts "iter (keys_state s - cur)" "events s" w1]
    by blast
  obtain prs w3 where
    p: "append_events hw True ts (iter (cur - keys_state s))
          ((events s)\<lparr>inq := inq (events s) @ rel\<rparr>) w2 =
          ((events s)\<lparr>inq := inq (events s) @ rel @ prs\<rparr>, w3)"
    and pk: "map key_number prs = iter (cur - keys_state s)"
    and pp: "map pressed prs = map (\<lambda>k. True) (iter (cur - keys_state s))"
    and pt: "ts \<noteq> 0 \<longrightarrow> map timestamp prs = map (\<lambda>k. ts) (iter (cur - keys_state s))"
    using append_events_inq [of hw True ts "iter (cur - keys_state s)"
        "(events s)\<lparr>inq := inq (events s) @ rel\<rparr>" w2]
    by auto
  have u: "update_queue hw iter s w =
      (Inr (), s\<lparr>events := (events s)\<lparr>inq := inq (events s) @ rel @ prs\<rparr>, keys_state := cur\<rparr>, w3)"
    using t sc r p by (simp add: update_queue_def)
  have tm: "ts \<noteq> 0 \<longrightarrow> map timestamp (rel @ prs) = map (\<lambda>e. ts) (rel @ prs)"
  proof
    assume nz: "ts \<noteq> 0"
    have "map timestamp rel = map (\<lambda>e. ts) rel"
      using rt nz rk by (metis map_eq_conv map_replicate_const length_map)
    moreover have "map timestamp prs = map (\<lambda>e. ts) prs"
      using pt nz pk by (metis map_eq_conv map_replicate_const length_map)
    ultimately show "map timestamp (rel @ prs) = map (\<lambda>e. ts) (rel @ prs)"
      by simp
  qed
  from u rk pk rp pp tm show ?thesis by blast
qed

text \<open>
  When the timestamp captured at the start of the cycle is not 0, every event appended in
  the cycle carries it.
\<close>

lemma update_queue_timestamp_shared:
  assumes "ts \<noteq> 0"
    and t: "ticks_ms hw w = (ts, w0)"
    and sc: "scan_matrix hw s w0 = (Inr cur, w1)"
  shows "\<exists>new w'.
      update_queue hw iter s w =
        (Inr (), s\<lparr>events := (events s)\<lparr>inq := inq (events s) @ new\<rparr>, keys_state := cur\<rparr>, w') \<and>
      map timestamp new = map (\<lambda>e. ts) new"
proof -
  from update_queue_ok [OF t sc, of iter] \<open>ts \<noteq> 0\<close> obtain rel prs w' where
    "update_queue hw iter s w =
        (Inr (), s\<lparr>events := (events s)\<lparr>inq := inq (events s) @ rel @ prs\<rparr>, keys_state := cur\<rparr>, w')"
    "map timestamp (rel @ prs) = map (\<lambda>e. ts) (rel @ prs)"
    by blast
  then show ?thesis by blast
qed

lemma filter_key_unique:
  "distinct (map f xs) \<Longrightarrow> k \<in> set (map f xs) \<Longrightarrow> \<exists>x. filter (\<lambda>e. f e = k) xs = [x]"
proof (induction xs)
  case Nil
  then show ?case by simp
next
  case (Cons a xs)
  show ?case
  proof (cases "f a = k")
    case True
    from Cons.prems(1) have "f a \<notin> f ` set xs" by simp
    then have "\<forall>e\<in>set xs. f e \<noteq> f a" by (metis imageI)
    with True have "\<forall>e\<in>set xs. f e \<noteq> k" by simp
    then have "filter (\<lambda>e. f e = k) xs = []" by (simp add: filter_empty_conv)
    with True show ?thesis by simp
  next
    case False
    with Cons show ?thesis by auto
  qed
qed

lemma set_iteration_sorted: "set_iteration sorted_list_of_set"
  by (simp add: set_iteration_def)

lemma map_const_set: "map f xs = map (\<lambda>k. c) ys \<Longrightarrow> x \<in> set xs \<Longrightarrow> f x = c"
proof -
  assume m: "map f xs = map (\<lambda>k. c) ys" and x: "x \<in> set xs"
  from x have "f x \<in> set (map f xs)" by simp
  with m have "f x \<in> set (map (\<lambda>k. c) ys)" by simp
  then show "f x = c" by auto
qed

text \<open>
  Claim C1. When the scan of a cycle succeeds with \<open>current_state\<close>, \<^verbatim>\<open>update_queue\<close>
  appends to the queue a run \<open>rel\<close> of released events followed by a run \<open>prs\<close> of
  pressed events and nothing else: the key numbers of \<open>rel\<close> are exactly the previous
  \<open>keys_state\<close> minus \<open>current_state\<close>, those of \<open>prs\<close> exactly \<open>current_state\<close> minus the
  previous \<open>keys_state\<close>, each key once, and every released event comes before every
  pressed one. This holds for every order of iteration over a set, and \<open>keys_state\<close>, a
  Python set, is finite.
\<close>

theorem update_queue_events:
  assumes it: "set_iteration iter"
    and fin: "finite (keys_state s)"
    and t: "ticks_ms hw w = (ts, w0)"
    and sc: "scan_matrix hw s w0 = (Inr current_state, w1)"
  shows "\<exists>rel prs w'.
      update_queue hw iter s w =
        (Inr (), s\<lparr>events := (events s)\<lparr>inq := inq (events s) @ rel @ prs\<rparr>,
                   keys_state := current_state\<rparr>, w') \<and>
      (\<forall>e\<in>set rel. \<not> pressed e) \<and> (\<forall>e\<in>set prs. pressed e) \<and>
      key_number ` set rel = keys_state s - current_state \<and>
      key_number ` set prs = current_state - keys_state s \<and>
      distinct (map key_number rel) \<and> distinct (map key_number prs)"
proof -
  from update_queue_ok [OF t sc, of iter] obtain rel prs w' where
    u: "update_queue hw iter s w =
        (Inr (), s\<lparr>events := (events s)\<lparr>inq := inq (events s) @ rel @ prs\<rparr>,
                   keys_state := current_state\<rparr>, w')"
    and rk: "map key_number rel = iter (keys_state s - current_state)"
    and pk: "map key_number prs = iter (current_state - keys_state s)"
    and rp: "map pressed rel = map (\<lambda>k. False) (iter (keys_state s - current_state))"
    and pp: "map pressed prs = map (\<lambda>k. True) (iter (current_state - keys_state s))"
    by blast
  have f1: "finite (keys_state s - current_state)"
    using fin by simp
  have f2: "finite (current_state - keys_state s)"
    using scan_matrix_finite [OF sc] by simp
  from it f1 have i1: "set (iter (keys_state s - current_state)) = keys_state s - current_state"
    "distinct (iter (keys_state s - current_state))"
    by (simp_all add: set_iteration_def)
  from it f2 have i2: "set (iter (current_state - keys_state s)) = current_state - keys_state s"
    "distinct (iter (current_state - keys_state s))"
    by (simp_all add: set_iteration_def)
  have a: "\<forall>e\<in>set rel. \<not> pressed e"
    using map_const_set [OF rp] by blast
  have b: "\<forall>e\<in>set prs. pressed e"
    using map_const_set [OF pp] by blast
  have c: "key_number ` set rel = keys_state s - current_state"
    using rk i1 by (metis set_map)
  have d: "key_number ` set prs = current_state - keys_state s"
    using pk i2 by (metis set_map)
  from u a b c d rk pk i1 i2 show ?thesis
    by (intro exI [of _ rel] exI [of _ prs] exI [of _ w']) simp
qed

theorem update_queue_events_witness:
  "\<exists>rel prs w'.
      update_queue (bench_hw key4_held) sorted_list_of_set (keypad {1}) (bench_at 7) =
        (Inr (), (keypad {1})\<lparr>events := (events (keypad {1}))\<lparr>inq := rel @ prs\<rparr>,
                   keys_state := {4}\<rparr>, w') \<and>
      key_number ` set rel = {1} \<and> key_number ` set prs = {4}"
proof -
  have t: "ticks_ms (bench_hw key4_held) (bench_at 7) = (7, bench_at 8)"
    by (simp add: bench_hw_def bench_at_def)
  have sc: "scan_matrix (bench_hw key4_held) (keypad {1}) (bench_at 8) = (Inr {4}, bench_at 8)"
    by (simp add: scan_matrix_def bench_hw_def keypad_def key4_held_def bench_at_def)
  have fin: "finite (keys_state (keypad {1}))"
    by (simp add: keypad_def)
  have k: "keys_state (keypad {1}) - {4} = {1}" "{4} - keys_state (keypad {1}) = {4}"
    "inq (events (keypad {1})) = []"
    by (simp_all add: keypad_def EventQueue_init_def)
  from update_queue_events [OF set_iteration_sorted fin t sc] show ?thesis
    unfolding k by auto
qed

text \<open>
  Claim C4 fails when the timestamp captured at the start of the cycle is 0: \<^verbatim>\<open>Event\<close>
  takes the 0 it is given for a missing argument and reads the clock again. On the bench,
  the cycle starts at clock reading 0 and finds key 4 newly pressed; its event carries the
  later reading 1, not the captured 0.
\<close>

theorem update_queue_timestamp_zero:
  "ticks_ms (bench_hw key4_held) (bench_at 0) = (0, bench_at 1) \<and>
   update_queue (bench_hw key4_held) sorted_list_of_set (keypad {}) (bench_at 0) =
     (Inr (),
      (keypad {})\<lparr>events := \<lparr>outq = [], inq = [\<lparr>key_number = 4, timestamp = 1, pressed = True\<rparr>]\<rparr>,
                  keys_state := {4}\<rparr>,
      bench_at 2)"
  by (simp add: update_queue_def scan_matrix_def bench_hw_def keypad_def key4_held_def
      bench_at_def Event_init_def EventQueue_append_def EventQueue_init_def)

text \<open>
  An error that ends the scan ends \<^verbatim>\<open>update_queue\<close> before it has touched the scanner.
\<close>

lemma update_queue_scan_raises:
  assumes "ticks_ms hw w = (ts, w0)"
    and "scan_matrix hw s w0 = (Inl e, w1)"
  shows "update_queue hw iter s w = (Inl e, s, w1)"
  using assms by (simp add: update_queue_def)

text \<open>
  Claim C5. Let a port access of the scan cycle raise \<open>e\<close>: the write on port A that
  selects column \<open>c\<close>, or the read of port B for column \<open>c\<close> (after the columns \<open>pre\<close>
  before it were scanned), or the write that sets port A back to \<open>0xFF\<close> after the last
  column. Then \<^verbatim>\<open>update_queue\<close> raises \<open>e\<close>, in the world that access left, and the
  scanner is what it was before the call: \<open>keys_state\<close> is unchanged and no event has
  been appended.
\<close>

theorem update_queue_port_error:
  assumes t: "ticks_ms hw w = (ts, w0)"
    and port:
      "(columns s = pre @ c # post \<and> scan_columns hw s pre {} w0 = (Inr acc, w1) \<and> 0 \<le> c \<and>
          gpioa_set hw (255 - push_bit (nat c) 1) w1 = (Some e, w2)) \<or>
       (columns s = pre @ c # post \<and> scan_columns hw s pre {} w0 = (Inr acc, w1) \<and> 0 \<le> c \<and>
          gpioa_set hw (255 - push_bit (nat c) 1) w1 = (None, wa) \<and>
          (irq s = None \<or> \<not> irq_value hw wa) \<and> gpiob_get hw wa = (Inl e, w2)) \<or>
       (scan_columns hw s (columns s) {} w0 = (Inr acc, w1) \<and>
          gpioa_set hw 255 w1 = (Some e, w2))"
  shows "update_queue hw iter s w = (Inl e, s, w2)"
proof -
  from port have "scan_matrix hw s w0 = (Inl e, w2)"
    using scan_matrix_write_error [of s pre c post hw w0 acc w1 e w2]
      scan_matrix_read_error [of s pre c post hw w0 acc w1 wa e w2]
      scan_matrix_restore_error [of hw s w0 acc w1 e w2]
    by blast
  with t show ?thesis by (rule update_queue_scan_raises)
qed

theorem update_queue_port_error_witness:
  "update_queue (bench_hw bus_down) sorted_list_of_set (keypad {1}) (bench_at 7) =
     (Inl OSError, keypad {1}, (bench_at 8)\<lparr>porta := 254\<rparr>) \<and>
   update_queue (write_fails 253 (bench_hw key4_held)) sorted_list_of_set (keypad {1}) (bench_at 7) =
     (Inl OSError, keypad {1}, (bench_at 8)\<lparr>porta := 254\<rparr>) \<and>
   update_queue (write_fails 255 (bench_hw key4_held)) sorted_list_of_set (keypad {1}) (bench_at 7) =
     (Inl OSError, keypad {1}, (bench_at 8)\<lparr>porta := 251\<rparr>)"
proof -
  let ?rd = "bench_hw bus_down"
  let ?sel = "write_fails 253 (bench_hw key4_held)"
  let ?rst = "write_fails 255 (bench_hw key4_held)"
  have rd: "update_queue ?rd sorted_list_of_set (keypad {1}) (bench_at 7) =
     (Inl OSError, keypad {1}, (bench_at 8)\<lparr>porta := 254\<rparr>)"
  proof (rule update_queue_port_error [where ts = 7 and ?w0.0 = "bench_at 8" and pre = "[]"
        and c = 0 and post = "[1, 2]" and acc = "{}" and ?w1.0 = "bench_at 8"
        and wa = "(bench_at 8)\<lparr>porta := 254\<rparr>"])
    show "ticks_ms ?rd (bench_at 7) = (7, bench_at 8)"
      by (simp add: bench_hw_def bench_at_def)
    show "(columns (keypad {1}) = [] @ 0 # [1, 2] \<and>
            scan_columns ?rd (keypad {1}) [] {} (bench_at 8) = (Inr {}, bench_at 8) \<and> (0::int) \<le> 0 \<and>
            gpioa_set ?rd (255 - push_bit (nat 0) 1) (bench_at 8) =
              (Some OSError, (bench_at 8)\<lparr>porta := 254\<rparr>)) \<or>
          (columns (keypad {1}) = [] @ 0 # [1, 2] \<and>
            scan_columns ?rd (keypad {1}) [] {} (bench_at 8) = (Inr {}, bench_at 8) \<and> (0::int) \<le> 0 \<and>
            gpioa_set ?rd (255 - push_bit (nat 0) 1) (bench_at 8) =
              (None, (bench_at 8)\<lparr>porta := 254\<rparr>) \<and>
            (irq (keypad {1}) = None \<or> \<not> irq_value ?rd ((bench_at 8)\<lparr>porta := 254\<rparr>)) \<and>
            gpiob_get ?rd ((bench_at 8)\<lparr>porta := 254\<rparr>) =
              (Inl OSError, (bench_at 8)\<lparr>porta := 254\<rparr>)) \<or>
          (scan_columns ?rd (keypad {1}) (columns (keypad {1})) {} (bench_at 8) = (Inr {}, bench_at 8) \<and>
            gpioa_set ?rd 255 (bench_at 8) = (Some OSError, (bench_at 8)\<lparr>porta := 254\<rparr>))"
      by (simp add: bench_hw_def bench_at_def keypad_def bus_down_def)
  qed
  have sel: "update_queue ?sel sorted_list_of_set (keypad {1}) (bench_at 7) =
     (Inl OSError, keypad {1}, (bench_at 8)\<lparr>porta := 254\<rparr>)"
  proof (rule update_queue_port_error [where ts = 7 and ?w0.0 = "bench_at 8" and pre = "[0]"
        and c = 1 and post = "[2]" and acc = "{}" and ?w1.0 = "(bench_at 8)\<lparr>porta := 254\<rparr>"
        and wa = "bench_at 8"])
    show "ticks_ms ?sel (bench_at 7) = (7, bench_at 8)"
      by (simp add: write_fails_def bench_hw_def bench_at_def)
    show "(columns (keypad {1}) = [0] @ 1 # [2] \<and>
            scan_columns ?sel (keypad {1}) [0] {} (bench_at 8) =
              (Inr {}, (bench_at 8)\<lparr>porta := 254\<rparr>) \<and> (0::int) \<le> 1 \<and>
            gpioa_set ?sel (255 - push_bit (nat 1) 1) ((bench_at 8)\<lparr>porta := 254\<rparr>) =
              (Some OSError, (bench_at 8)\<lparr>porta := 254\<rparr>)) \<or>
          (columns (keypad {1}) = [0] @ 1 # [2] \<and>
            scan_columns ?sel (keypad {1}) [0] {} (bench_at 8) =
              (Inr {}, (bench_at 8)\<lparr>porta := 254\<rparr>) \<and> (0::int) \<le> 1 \<and>
            gpioa_set ?sel (255 - push_bit (nat 1) 1) ((bench_at 8)\<lparr>porta := 254\<rparr>) =
              (None, bench_at 8) \<and>
            (irq (keypad {1}) = None \<or> \<not> irq_value ?sel (bench_at 8)) \<and>
            gpiob_get ?sel (bench_at 8) = (Inl OSError, (bench_at 8)\<lparr>porta := 254\<rparr>)) \<or>
          (scan_columns ?sel (keypad {1}) (columns (keypad {1})) {} (bench_at 8) =
              (Inr {}, (bench_at 8)\<lparr>porta := 254\<rparr>) \<and>
            gpioa_set ?sel 255 ((bench_at 8)\<lparr>porta := 254\<rparr>) =
              (Some OSError, (bench_at 8)\<lparr>porta := 254\<rparr>))"
      by (simp add: write_fails_def bench_hw_def bench_at_def keypad_def key4_held_def)
  qed
  have rst: "update_queue ?rst sorted_list_of_set (keypad {1}) (bench_at 7) =
     (Inl OSError, keypad {1}, (bench_at 8)\<lparr>porta := 251\<rparr>)"
  proof (rule update_queue_port_error [where ts = 7 and ?w0.0 = "bench_at 8" and pre = "[]"
        and c = 0 and post = "[]" and acc = "{4}" and ?w1.0 = "(bench_at 8)\<lparr>porta := 251\<rparr>"
        and wa = "bench_at 8"])
    show "ticks_ms ?rst (bench_at 7) = (7, bench_at 8)"
      by (simp add: write_fails_def bench_hw_def bench_at_def)
    show "(columns (keypad {1}) = [] @ 0 # [] \<and>
            scan_columns ?rst (keypad {1}) [] {} (bench_at 8) =
              (Inr {4}, (bench_at 8)\<lparr>porta := 251\<rparr>) \<and> (0::int) \<le> 0 \<and>
            gpioa_set ?rst (255 - push_bit (nat 0) 1) ((bench_at 8)\<lparr>porta := 251\<rparr>) =
              (Some OSError, (bench_at 8)\<lparr>porta := 251\<rparr>)) \<or>
          (columns (keypad {1}) = [] @ 0 # [] \<and>
            scan_columns ?rst (keypad {1}) [] {} (bench_at 8) =
              (Inr {4}, (bench_at 8)\<lparr>porta := 251\<rparr>) \<and> (0::int) \<le> 0 \<and>
            gpioa_set ?rst (255 - push_bit (nat 0) 1) ((bench_at 8)\<lparr>porta := 251\<rparr>) =
              (None, bench_at 8) \<and>
            (irq (keypad {1}) = None \<or> \<not> irq_value ?rst (bench_at 8)) \<and>
            gpiob_get ?rst (bench_at 8) = (Inl OSError, (bench_at 8)\<lparr>porta := 251\<rparr>)) \<or>
          (scan_columns ?rst (keypad {1}) (columns (keypad {1})) {} (bench_at 8) =
              (Inr {4}, (bench_at 8)\<lparr>porta := 251\<rparr>) \<and>
            gpioa_set ?rst 255 ((bench_at 8)\<lparr>porta := 251\<rparr>) =
              (Some OSError, (bench_at 8)\<lparr>porta := 251\<rparr>))"
      by (simp add: write_fails_def bench_hw_def bench_at_def keypad_def key4_held_def)
  qed
  from rd sel rst show ?thesis by simp
qed

text \<open>
  Claim C7. After \<^verbatim>\<open>reset()\<close> the set \<open>keys_state\<close> and the queue are empty; and when
  the scan of the next \<^verbatim>\<open>update_queue()\<close> finds the key \<open>K\<close> pressed, the queue holds
  after that cycle exactly one event of key number \<open>K\<close>, and it is a pressed event.
\<close>

theorem reset_then_pressed:
  assumes it: "set_iteration iter"
    and t: "ticks_ms hw w = (ts, w0)"
    and sc: "scan_matrix hw (reset s) w0 = (Inr current_state, w1)"
    and K: "K \<in> current_state"
  shows "keys_state (reset s) = {} \<and> EventQueue_len (events (reset s)) = 0 \<and>
    (\<exists>s' w' ev. update_queue hw iter (reset s) w = (Inr (), s', w') \<and>
       filter (\<lambda>e. key_number e = K) (pending (events s')) = [ev] \<and> pressed ev)"
proof -
  have k0: "keys_state (reset s) = {}" and q0: "EventQueue_len (events (reset s)) = 0"
    and o0: "outq (events (reset s)) = []" and i0: "inq (events (reset s)) = []"
    by (simp_all add: reset_def EventQueue_clear_def EventQueue_len_def)
  from update_queue_ok [OF t sc, of iter] k0 i0 obtain rel prs w' where
    u: "update_queue hw iter (reset s) w =
        (Inr (), (reset s)\<lparr>events := (events (reset s))\<lparr>inq := rel @ prs\<rparr>,
                   keys_state := current_state\<rparr>, w')"
    and rk: "map key_number rel = iter {}"
    and pk: "map key_number prs = iter current_state"
    and pp: "map pressed prs = map (\<lambda>k. True) (iter current_state)"
    by auto
  from it have "set (iter {}) = {}"
    by (simp add: set_iteration_def)
  with rk have rel: "rel = []" by simp
  from it scan_matrix_finite [OF sc]
  have ic: "set (iter current_state) = current_state" "distinct (iter current_state)"
    by (simp_all add: set_iteration_def)
  from pk ic K have "distinct (map key_number prs)" "K \<in> set (map key_number prs)"
    by simp_all
  from filter_key_unique [OF this] obtain ev
    where f: "filter (\<lambda>e. key_number e = K) prs = [ev]" by blast
  have "ev \<in> set (filter (\<lambda>e. key_number e = K) prs)"
    by (simp add: f)
  then have "ev \<in> set prs" by simp
  with map_const_set [OF pp] have "pressed ev" by blast
  with u f rel o0 have "update_queue hw iter (reset s) w =
        (Inr (), (reset s)\<lparr>events := (events (reset s))\<lparr>inq := prs\<rparr>,
                   keys_state := current_state\<rparr>, w') \<and>
       filter (\<lambda>e. key_number e = K)
         (pending (events ((reset s)\<lparr>events := (events (reset s))\<lparr>inq := prs\<rparr>,
                   keys_state := current_state\<rparr>))) = [ev] \<and> pressed ev"
    by (simp add: pending_def)
  with k0 q0 show ?thesis by blast
qed

theorem reset_then_pressed_witness:
  "\<exists>s' w' ev.
     update_queue (bench_hw key4_held) sorted_list_of_set (reset (keypad {4})) (bench_at 7) =
       (Inr (), s', w') \<and>
     filter (\<lambda>e. key_number e = 4) (pending (events s')) = [ev] \<and> pressed ev"
proof -
  have t: "ticks_ms (bench_hw key4_held) (bench_at 7) = (7, bench_at 8)"
    by (simp add: bench_hw_def bench_at_def)
  have sc: "scan_matrix (bench_hw key4_held) (reset (keypad {4})) (bench_at 8) =
      (Inr {4}, bench_at 8)"
    by (simp add: scan_matrix_def bench_hw_def keypad_def key4_held_def bench_at_def reset_def)
  have K: "(4::int) \<in> {4}" by simp
  from reset_then_pressed [OF set_iteration_sorted t sc K] show ?thesis
    by blast
qed

section \<open>Key numbers, teardown and the Event constructor\<close>

text \<open>
  Claim C6. For a row below the number of rows and a column below the number of columns,
  both non-negative, converting to a key number and back gives the same row and column.
\<close>

theorem key_number_round_trip:
  assumes "0 \<le> row" and "row < int (length (rows s))"
    and "0 \<le> column" and "column < int (length (columns s))"
  shows "key_number_to_row_column s (row_column_to_key_number s row column) = Inr (row, column)"
  using assms by (auto simp: key_number_to_row_column_def row_column_to_key_number_def)

theorem key_number_round_trip_witness:
  "key_number_to_row_column (keypad {}) (row_column_to_key_number (keypad {}) 1 2) = Inr (1, 2) \<and>
   row_column_to_key_number (keypad {}) 1 2 = 5"
  using key_number_round_trip [of 1 "keypad {}" 2]
  by (simp add: keypad_def row_column_to_key_number_def)

text \<open>
  Claim C9. A second \<^verbatim>\<open>deinit()\<close> right after a first one changes neither the scanner
  nor the world; after the first, \<^verbatim>\<open>self.irq\<close> is \<^verbatim>\<open>None\<close>, and the pin was released
  (once) when a handle was held. \<^verbatim>\<open>deinit\<close> has no failing branch.
\<close>

theorem deinit_idempotent:
  "deinit hw (fst (deinit hw s w)) (snd (deinit hw s w)) = deinit hw s w \<and>
   irq (fst (deinit hw s w)) = None \<and>
   snd (deinit hw s w) = (if irq s = None then w else irq_deinit hw w)"
  by (simp add: deinit_def split: option.splits)

theorem deinit_idempotent_witness:
  "deinit (bench_hw key4_held) ((keypad {})\<lparr>irq := Some (DigitalInOut 5)\<rparr>) (bench_at 7) =
     (keypad {}, (bench_at 7)\<lparr>irq_claimed := False\<rparr>) \<and>
   deinit (bench_hw key4_held) (keypad {}) ((bench_at 7)\<lparr>irq_claimed := False\<rparr>) =
     (keypad {}, (bench_at 7)\<lparr>irq_claimed := False\<rparr>)"
proof -
  have d: "deinit (bench_hw key4_held) ((keypad {})\<lparr>irq := Some (DigitalInOut 5)\<rparr>) (bench_at 7) =
     (keypad {}, (bench_at 7)\<lparr>irq_claimed := False\<rparr>)"
    by (simp add: deinit_def bench_hw_def keypad_def)
  from deinit_idempotent [of "bench_hw key4_held" "(keypad {})\<lparr>irq := Some (DigitalInOut 5)\<rparr>" "bench_at 7"]
  show ?thesis
    unfolding d by (simp add: bench_hw_def)
qed

text \<open>
  Claim C10. An Event built with the explicit timestamp \<open>t\<close> stores \<open>t\<close> when \<open>t\<close> is not
  zero; built with the timestamp 0 it stores the reading of the clock instead (and the
  clock has been read).
\<close>

theorem Event_init_timestamp:
  "Event_init hw key prs (Some t) w =
     (if t \<noteq> 0 then (\<lparr>key_number = key, timestamp = t, pressed = prs\<rparr>, w)
      else (\<lparr>key_number = key, timestamp = fst (ticks_ms hw w), pressed = prs\<rparr>,
            snd (ticks_ms hw w)))"
  by (simp add: Event_init_def split: prod.splits)

theorem Event_init_timestamp_witness:
  "Event_init (bench_hw key4_held) 4 True (Some 9) (bench_at 7) =
     (\<lparr>key_number = 4, timestamp = 9, pressed = True\<rparr>, bench_at 7) \<and>
   Event_init (bench_hw key4_held) 4 True (Some 0) (bench_at 7) =
     (\<lparr>key_number = 4, timestamp = 7, pressed = True\<rparr>, bench_at 8)"
  using Event_init_timestamp [of "bench_hw key4_held" 4 True 9 "bench_at 7"]
    Event_init_timestamp [of "bench_hw key4_held" 4 True 0 "bench_at 7"]
  by (simp add: bench_hw_def bench_at_def)

end
